theory Spec2Isabelle
  imports Complex_Main
begin

section \<open>Expression trees (ikm.py)\<close>

text \<open>
  The exceptions the program raises, as values. \<open>ParseError\<close> is the parser's own
  exception class; \<open>ValueError\<close> is raised for an undefined variable and for an unknown
  operator tag; \<open>ZeroDivisionError\<close> is raised by a division whose right operand is zero.
\<close>

datatype error = ParseError | ValueError | ZeroDivisionError

text \<open>
  Sequencing two calls: an exception raised by the first propagates, otherwise the second
  runs on the first's result.
\<close>

definition and_then :: "error + 'a \<Rightarrow> ('a \<Rightarrow> error + 'b) \<Rightarrow> error + 'b" where
  "and_then m f = (case m of Inl e \<Rightarrow> Inl e | Inr x \<Rightarrow> f x)"

text \<open>
  The \<open>value\<close> field of a \<open>ValueNode\<close> holds either a Python \<open>int\<close> (unbounded) or a
  \<open>str\<close> (a variable name); the code tells them apart with \<open>isinstance(value, int)\<close>.
\<close>

datatype pyval = is_int: IntV (int_of: int) | StrV (str_of: string)

datatype node =
    is_ValueNode: ValueNode (val: pyval)
  | is_UnaryMinusNode: UnaryMinusNode (child: node)
  | is_BinaryOpNode: BinaryOpNode (oper: string) (left: node) (right: node)

subsection \<open>evaluate\<close>

fun evaluate :: "node \<Rightarrow> (string \<rightharpoonup> int) \<Rightarrow> error + int" where
  "evaluate (ValueNode (IntV n)) variables = Inr n"
| "evaluate (ValueNode (StrV s)) variables =
     (case variables s of Some v \<Rightarrow> Inr v | None \<Rightarrow> Inl ValueError)"
| "evaluate (UnaryMinusNode c) variables =
     (case evaluate c variables of Inl e \<Rightarrow> Inl e | Inr v \<Rightarrow> Inr (- v))"
| "evaluate (BinaryOpNode opr l r) variables =
     (case evaluate l variables of Inl e \<Rightarrow> Inl e | Inr left_val \<Rightarrow>
      (case evaluate r variables of Inl e \<Rightarrow> Inl e | Inr right_val \<Rightarrow>
         if opr = ''+'' then Inr (left_val + right_val)
         else if opr = ''-'' then Inr (left_val - right_val)
         else if opr = ''*'' then Inr (left_val * right_val)
         else if opr = ''/'' then
           (if right_val = 0 then Inl ZeroDivisionError else Inr (left_val div right_val))
         else Inl ValueError))"

subsection \<open>Structural equality (\<open>__eq__\<close>)\<close>

text \<open>
  \<open>ValueNode.__eq__\<close> and \<open>BinaryOpNode.__eq__\<close> compare variant and contents.
  \<open>UnaryMinusNode\<close> defines no \<open>__eq__\<close>, so Python falls back to object identity; the
  nodes of a tree are distinct objects (a node exclusively owns its children), hence a
  comparison that meets a unary minus node on the left is \<open>False\<close>.
\<close>

fun node_eq :: "node \<Rightarrow> node \<Rightarrow> bool" where
  "node_eq (ValueNode v) other = (is_ValueNode other \<and> v = val other)"
| "node_eq (BinaryOpNode opr l r) other =
     (is_BinaryOpNode other \<and> opr = oper other \<and> node_eq l (left other) \<and> node_eq r (right other))"
| "node_eq (UnaryMinusNode c) other = False"

subsection \<open>simplify\<close>

text \<open>
  \<open>simplify\<close> assigns the simplified children back to \<open>self\<close> and returns \<open>self\<close> or a
  new node; on a tree without shared nodes the returned tree is the value below. The
  constant fold calls \<open>self.evaluate({})\<close>, so it raises what \<open>evaluate\<close> raises.
\<close>

text \<open>The number of nodes of a tree: the measure under which \<open>simplify\<close> terminates.\<close>

fun node_count :: "node \<Rightarrow> nat" where
  "node_count (ValueNode v) = 1"
| "node_count (UnaryMinusNode c) = Suc (node_count c)"
| "node_count (BinaryOpNode opr l r) = Suc (node_count l + node_count r)"

function simplify :: "node \<Rightarrow> error + node" where
  "simplify (ValueNode v) = Inr (ValueNode v)"
| "simplify (UnaryMinusNode c) =
     (case simplify c of Inl e \<Rightarrow> Inl e | Inr c' \<Rightarrow>
        if is_ValueNode c' \<and> is_int (val c') then Inr (ValueNode (IntV (- int_of (val c'))))
        else Inr (UnaryMinusNode c'))"
| "simplify (BinaryOpNode opr l r) =
     (case simplify l of Inl e \<Rightarrow> Inl e | Inr l' \<Rightarrow>
      (case simplify r of Inl e \<Rightarrow> Inl e | Inr r' \<Rightarrow>
         if (opr = ''+'' \<or> opr = ''-'') \<and> is_BinaryOpNode l' \<and> is_BinaryOpNode r'
            \<and> oper l' = ''*'' \<and> oper r' = ''*'' \<and> node_eq (right l') (right r')
         then (case simplify (BinaryOpNode opr (left l') (left r')) of Inl e \<Rightarrow> Inl e
               | Inr inner \<Rightarrow> simplify (BinaryOpNode ''*'' inner (right l')))
         else if (opr = ''+'' \<or> opr = ''-'') \<and> is_BinaryOpNode l' \<and> is_BinaryOpNode r'
            \<and> oper l' = ''*'' \<and> oper r' = ''*'' \<and> node_eq (left l') (left r')
         then (case simplify (BinaryOpNode opr (right l') (right r')) of Inl e \<Rightarrow> Inl e
               | Inr inner \<Rightarrow> simplify (BinaryOpNode ''*'' (left l') inner))
         else if is_ValueNode l' \<and> is_ValueNode r' \<and> is_int (val l') \<and> is_int (val r')
         then (case evaluate (BinaryOpNode opr l' r') Map.empty of Inl e \<Rightarrow> Inl e
               | Inr v \<Rightarrow> Inr (ValueNode (IntV v)))
         else Inr (BinaryOpNode opr l' r')))"
  by pat_completeness auto

lemma simplify_size_dom:
  "simplify_dom t \<Longrightarrow> simplify t = Inr t' \<Longrightarrow> node_count t' \<le> node_count t"
proof (induction t arbitrary: t' rule: simplify.pinduct)
  case (1 v)
  then show ?case by (simp add: simplify.psimps)
next
  case (2 c)
  then show ?case
    by (auto simp: simplify.psimps split: sum.splits if_splits)
next
  case (3 opr l r)
  from "3.prems" "3.hyps" obtain l' r' where
    l: "simplify l = Inr l'" and r: "simplify r = Inr r'"
    by (auto simp: simplify.psimps split: sum.splits)
  have sl: "node_count l' \<le> node_count l" using "3.IH"(1) l by simp
  have sr: "node_count r' \<le> node_count r" using "3.IH"(2) l r by simp
  let ?addsub = "(opr = ''+'' \<or> opr = ''-'') \<and> is_BinaryOpNode l' \<and> is_BinaryOpNode r'
            \<and> oper l' = ''*'' \<and> oper r' = ''*''"
  have bsz: "\<And>x. is_BinaryOpNode x \<Longrightarrow> node_count x = Suc (node_count (left x) + node_count (right x))"
    by (case_tac x) auto
  have pos: "\<And>x::node. 0 < node_count x" by (case_tac x) auto
  consider (R) "?addsub \<and> node_eq (right l') (right r')"
    | (L) "\<not> (?addsub \<and> node_eq (right l') (right r'))" "?addsub \<and> node_eq (left l') (left r')"
    | (N) "\<not> (?addsub \<and> node_eq (right l') (right r'))" "\<not> (?addsub \<and> node_eq (left l') (left r'))"
    by blast
  then show ?case
  proof cases
    case R
    from "3.prems" "3.hyps" l r R obtain inner where
      i: "simplify (BinaryOpNode opr (left l') (left r')) = Inr inner"
      and o: "simplify (BinaryOpNode ''*'' inner (right l')) = Inr t'"
      by (auto simp: simplify.psimps split: sum.splits)
    have si: "node_count inner \<le> node_count (BinaryOpNode opr (left l') (left r'))"
      using "3.IH"(3)[OF l r _ i] R by simp
    have so: "node_count t' \<le> node_count (BinaryOpNode ''*'' inner (right l'))"
      using "3.IH"(4)[OF l r _ i o] R by simp
    show ?thesis using si so sl sr bsz[of l'] bsz[of r'] R pos[of "right r'"] by simp
  next
    case L
    from "3.prems" "3.hyps" l r L obtain inner where
      i: "simplify (BinaryOpNode opr (right l') (right r')) = Inr inner"
      and o: "simplify (BinaryOpNode ''*'' (left l') inner) = Inr t'"
      by (auto simp: simplify.psimps split: sum.splits)
    have si: "node_count inner \<le> node_count (BinaryOpNode opr (right l') (right r'))"
      using "3.IH"(5)[OF l r _ _ i] L by simp
    have so: "node_count t' \<le> node_count (BinaryOpNode ''*'' (left l') inner)"
      using "3.IH"(6)[OF l r _ _ i o] L by simp
    show ?thesis using si so sl sr bsz[of l'] bsz[of r'] L pos[of "left r'"] by simp
  next
    case N
    from "3.prems" "3.hyps" l r N have "t' = BinaryOpNode opr l' r' \<or> node_count t' = 1"
      by (auto simp: simplify.psimps split: sum.splits if_splits)
    then show ?thesis using sl sr by auto
  qed
qed

termination simplify
proof (relation "measure node_count", goal_cases)
  case 1 show ?case by simp
next
  case (2 c) show ?case by simp
next
  case (3 opr l r) show ?case by simp
next
  case (4 opr l r) show ?case by simp
next
  case (5 opr l r l' r')
  then show ?case
    using simplify_size_dom[of l l'] simplify_size_dom[of r r']
    by (cases l'; cases r') auto
next
  case (6 opr l r l' r' inner)
  then show ?case
    using simplify_size_dom[of l l'] simplify_size_dom[of r r']
      simplify_size_dom[of "BinaryOpNode opr (left l') (left r')" inner]
    by (cases l'; cases r') auto
next
  case (7 opr l r l' r')
  then show ?case
    using simplify_size_dom[of l l'] simplify_size_dom[of r r']
    by (cases l'; cases r') auto
next
  case (8 opr l r l' r' inner)
  then show ?case
    using simplify_size_dom[of l l'] simplify_size_dom[of r r']
      simplify_size_dom[of "BinaryOpNode opr (right l') (right r')" inner]
    by (cases l'; cases r') auto
qed

section \<open>Parser (ikm.py, class Parser)\<close>

text \<open>
  ikm2.py holds the same parser as nested functions of \<open>parse_expression\<close>; it raises the
  built-in \<open>SyntaxError\<close> where the class \<open>Parser\<close> raises \<open>ParseError\<close>. The class is the
  one modelled here.
\<close>

text \<open>
  \<open>str.isdigit\<close> and \<open>str.isalpha\<close> on the result of \<open>_current\<close>, which is a
  one-character string or the empty string (both are \<open>False\<close> on the empty string). The
  input is taken to be ASCII text: a \<open>char\<close> is a byte, and the digits are \<open>0..9\<close>, the
  letters \<open>a..z\<close> and \<open>A..Z\<close>.
\<close>

definition isdigit :: "string \<Rightarrow> bool" where
  "isdigit s = (s \<noteq> [] \<and> list_all (\<lambda>c. c \<in> set ''0123456789'') s)"

definition isalpha :: "string \<Rightarrow> bool" where
  "isalpha s = (s \<noteq> [] \<and>
     list_all (\<lambda>c. c \<in> set ''abcdefghijklmnopqrstuvwxyzABCDEFGHIJKLMNOPQRSTUVWXYZ'') s)"

text \<open>
  The class attribute \<open>OPERATORS_PRIORITY\<close>, a dict; \<open>_priority\<close> is its \<open>get(op, 0)\<close>
  and \<open>op in OPERATORS_PRIORITY\<close> is \<open>map_of OPERATORS_PRIORITY op \<noteq> None\<close>.
\<close>

definition OPERATORS_PRIORITY :: "(string \<times> nat) list" where
  "OPERATORS_PRIORITY = [(''+'', 1), (''-'', 1), (''*'', 2), (''/'', 2)]"

definition priority :: "string \<Rightarrow> nat" where
  "priority opr = (case map_of OPERATORS_PRIORITY opr of Some p \<Rightarrow> p | None \<Rightarrow> 0)"

text \<open>
  The parser's state is the text \<open>expr\<close> (fixed after \<open>__init__\<close>) and the position
  \<open>pos\<close>; every parsing function returns the new position with its node.
  \<open>_consume\<close> returns \<open>_current\<close> and adds one to \<open>pos\<close>.
\<close>

definition current :: "string \<Rightarrow> nat \<Rightarrow> string" where
  "current expr pos = (if pos < length expr then [expr ! pos] else [])"

text \<open>The loop of \<open>_parse_number\<close>: \<open>while self._current().isdigit(): self.pos += 1\<close>.\<close>

function scan_digits :: "string \<Rightarrow> nat \<Rightarrow> nat" where
  "scan_digits expr pos =
     (if isdigit (current expr pos) then scan_digits expr (pos + 1) else pos)"
  by pat_completeness auto
termination
  by (relation "measure (\<lambda>(expr, pos). length expr - pos)")
     (auto simp: current_def isdigit_def split: if_splits)

text \<open>
  \<open>int(s)\<close> on the slice \<open>expr[start:pos]\<close>. Only its behaviour on strings of decimal
  digits is modelled exactly (the slice holds digits only); any other string is a
  \<open>ValueError\<close> here.
\<close>

definition digit_value :: "char \<Rightarrow> int" where
  "digit_value c = int (of_char c) - 48"

definition py_int :: "string \<Rightarrow> error + int" where
  "py_int s = (if isdigit s then Inr (foldl (\<lambda>acc c. 10 * acc + digit_value c) 0 s)
               else Inl ValueError)"

definition parse_number :: "string \<Rightarrow> nat \<Rightarrow> error + node \<times> nat" where
  "parse_number expr pos =
     (let start = pos; pos' = scan_digits expr pos in
      case py_int (take (pos' - start) (drop start expr)) of
        Inl e \<Rightarrow> Inl e
      | Inr n \<Rightarrow> Inr (ValueNode (IntV n), pos'))"

text \<open>
  The recursive descent. \<open>parse_expression_loop\<close> is the \<open>while\<close> loop of
  \<open>_parse_expression\<close>, with the node built so far as an argument. The depth of Python's
  call stack is not modelled.
\<close>

function parse_expression :: "string \<Rightarrow> nat \<Rightarrow> nat \<Rightarrow> error + node \<times> nat"
  and parse_expression_loop :: "string \<Rightarrow> nat \<Rightarrow> node \<Rightarrow> nat \<Rightarrow> error + node \<times> nat"
  and parse_unary :: "string \<Rightarrow> nat \<Rightarrow> error + node \<times> nat"
  and parse_primary :: "string \<Rightarrow> nat \<Rightarrow> error + node \<times> nat"
where
  "parse_expression expr min_priority pos =
     (case parse_unary expr pos of Inl e \<Rightarrow> Inl e
      | Inr (node, pos1) \<Rightarrow> parse_expression_loop expr min_priority node pos1)"
| "parse_expression_loop expr min_priority node pos =
     (if map_of OPERATORS_PRIORITY (current expr pos) \<noteq> None
         \<and> priority (current expr pos) \<ge> min_priority
      then (case parse_expression expr (priority (current expr pos) + 1) (pos + 1) of
              Inl e \<Rightarrow> Inl e
            | Inr (right_node, pos2) \<Rightarrow>
                parse_expression_loop expr min_priority
                  (BinaryOpNode (current expr pos) node right_node) pos2)
      else Inr (node, pos))"
| "parse_unary expr pos =
     (if current expr pos = ''-''
      then (case parse_unary expr (pos + 1) of Inl e \<Rightarrow> Inl e
            | Inr (c, pos1) \<Rightarrow> Inr (UnaryMinusNode c, pos1))
      else parse_primary expr pos)"
| "parse_primary expr pos =
     (if current expr pos = ''(''
      then (case parse_expression expr 0 (pos + 1) of Inl e \<Rightarrow> Inl e
            | Inr (node, pos1) \<Rightarrow>
                if current expr pos1 \<noteq> '')'' then Inl ParseError
                else Inr (node, pos1 + 1))
      else if isdigit (current expr pos) then parse_number expr pos
      else if isalpha (current expr pos) then Inr (ValueNode (StrV (current expr pos)), pos + 1)
      else Inl ParseError)"
  by pat_completeness auto


declare scan_digits.simps [simp del]

lemma scan_digits_ge: "pos \<le> scan_digits expr pos"
proof (induction expr pos rule: scan_digits.induct)
  case (1 expr pos)
  show ?case
  proof (cases "isdigit (current expr pos)")
    case True
    with 1 have "pos + 1 \<le> scan_digits expr (pos + 1)" by simp
    then show ?thesis using True by (subst scan_digits.simps) simp
  next
    case False
    then show ?thesis by (subst scan_digits.simps) simp
  qed
qed

lemma parse_number_pos: "parse_number expr pos = Inr (t, p) \<Longrightarrow> pos \<le> p"
  using scan_digits_ge[of pos expr]
  by (auto simp: parse_number_def Let_def split: sum.splits)

lemma parse_pos_dom:
  "parse_expression_parse_expression_loop_parse_unary_parse_primary_dom (Inl (Inl (expr, m, pos)))
     \<Longrightarrow> parse_expression expr m pos = Inr (t, p) \<Longrightarrow> pos \<le> p"
  "parse_expression_parse_expression_loop_parse_unary_parse_primary_dom (Inl (Inr (expr, m, n, pos)))
     \<Longrightarrow> parse_expression_loop expr m n pos = Inr (t, p) \<Longrightarrow> pos \<le> p"
  "parse_expression_parse_expression_loop_parse_unary_parse_primary_dom (Inr (Inl (expr, pos)))
     \<Longrightarrow> parse_unary expr pos = Inr (t, p) \<Longrightarrow> pos \<le> p"
  "parse_expression_parse_expression_loop_parse_unary_parse_primary_dom (Inr (Inr (expr, pos)))
     \<Longrightarrow> parse_primary expr pos = Inr (t, p) \<Longrightarrow> pos \<le> p"
proof (induction expr m pos and expr m n pos and expr pos and expr pos arbitrary: t p and t p and t p and t p
    rule: parse_expression_parse_expression_loop_parse_unary_parse_primary.pinduct)
  case (1 expr min_priority pos)
  from "1.prems" "1.hyps" obtain n1 p1 where
    u: "parse_unary expr pos = Inr (n1, p1)"
    and l: "parse_expression_loop expr min_priority n1 p1 = Inr (t, p)"
    by (auto simp: parse_expression.psimps split: sum.splits prod.splits)
  from "1.IH"(1)[OF u] have "pos \<le> p1" .
  moreover from "1.IH"(2)[OF u refl l] have "p1 \<le> p" .
  ultimately show ?case by simp
next
  case (2 expr min_priority node pos)
  show ?case
  proof (cases "map_of OPERATORS_PRIORITY (current expr pos) \<noteq> None
         \<and> priority (current expr pos) \<ge> min_priority")
    case True
    with "2.prems" "2.hyps" obtain r p2 where
      e: "parse_expression expr (priority (current expr pos) + 1) (pos + 1) = Inr (r, p2)"
      and l: "parse_expression_loop expr min_priority (BinaryOpNode (current expr pos) node r) p2 = Inr (t, p)"
      by (auto simp: parse_expression_loop.psimps split: sum.splits prod.splits)
    from "2.IH"(1)[OF True e] have "pos + 1 \<le> p2" .
    moreover from "2.IH"(2)[OF True e refl l] have "p2 \<le> p" .
    ultimately show ?thesis by simp
  next
    case False
    with "2.prems" "2.hyps" show ?thesis
      by (auto simp: parse_expression_loop.psimps)
  qed
next
  case (3 expr pos)
  show ?case
  proof (cases "current expr pos = ''-''")
    case True
    with "3.prems" "3.hyps" obtain c where "parse_unary expr (pos + 1) = Inr (c, p)"
      by (auto simp: parse_unary.psimps split: sum.splits prod.splits)
    from "3.IH"(1)[OF True this] show ?thesis by simp
  next
    case False
    with "3.prems" "3.hyps" have "parse_primary expr pos = Inr (t, p)"
      by (auto simp: parse_unary.psimps)
    from "3.IH"(2)[OF False this] show ?thesis .
  qed
next
  case (4 expr pos)
  show ?case
  proof (cases "current expr pos = ''(''")
    case True
    with "4.prems" "4.hyps" obtain p1 where "parse_expression expr 0 (pos + 1) = Inr (t, p1)" "p = p1 + 1"
      by (auto simp: parse_primary.psimps split: sum.splits prod.splits if_splits)
    with "4.IH"[OF True] show ?thesis by fastforce
  next
    case False
    with "4.prems" "4.hyps" show ?thesis
      by (auto simp: parse_primary.psimps dest: parse_number_pos split: if_splits)
  qed
qed

lemma current_nonempty_lt: "current expr pos \<noteq> [] \<Longrightarrow> pos < length expr"
  by (simp add: current_def split: if_splits)

termination parse_expression
proof (relation "measures [\<lambda>x. case x of
          Inl (Inl (expr, m, pos)) \<Rightarrow> length expr - pos
        | Inl (Inr (expr, m, n, pos)) \<Rightarrow> length expr - pos
        | Inr (Inl (expr, pos)) \<Rightarrow> length expr - pos
        | Inr (Inr (expr, pos)) \<Rightarrow> length expr - pos,
      \<lambda>x. case x of
          Inl (Inl _) \<Rightarrow> 3
        | Inl (Inr _) \<Rightarrow> 0
        | Inr (Inl _) \<Rightarrow> 2
        | Inr (Inr _) \<Rightarrow> 1]", goal_cases)
  case 1
  show ?case by simp
next
  case (2 expr min_priority pos)
  show ?case by simp
next
  case (3 expr min_priority pos b x y)
  then have "pos \<le> y" using parse_pos_dom(3)[of expr pos x y] by simp
  then show ?case by auto
next
  case (4 expr min_priority node pos)
  then have "pos < length expr"
    by (intro current_nonempty_lt) (auto simp: OPERATORS_PRIORITY_def)
  then show ?case by auto
next
  case (5 expr min_priority node pos b x y)
  then have "pos < length expr"
    by (intro current_nonempty_lt) (auto simp: OPERATORS_PRIORITY_def)
  moreover from 5 have "pos + 1 \<le> y"
    using parse_pos_dom(1)[of expr "priority (current expr pos) + 1" "pos + 1" x y] by simp
  ultimately show ?case by auto
next
  case (6 expr pos)
  then have "pos < length expr" by (intro current_nonempty_lt) auto
  then show ?case by auto
next
  case (7 expr pos)
  show ?case by simp
next
  case (8 expr pos)
  then have "pos < length expr" by (intro current_nonempty_lt) auto
  then show ?case by auto
qed

declare parse_expression.simps [simp del] parse_expression_loop.simps [simp del]
  parse_unary.simps [simp del] parse_primary.simps [simp del]

text \<open>
  \<open>Parser(expr).parse()\<close>: \<open>__init__\<close> removes the spaces with
  \<open>expr.replace(' ', '')\<close>, \<open>parse\<close> rejects input left over after the top-level
  expression.
\<close>

definition remove_spaces :: "string \<Rightarrow> string" where
  "remove_spaces text = filter (\<lambda>c. c \<noteq> CHR '' '') text"

definition parse :: "string \<Rightarrow> error + node" where
  "parse text =
     (let expr = remove_spaces text in
      case parse_expression expr 0 0 of
        Inl e \<Rightarrow> Inl e
      | Inr (result, pos) \<Rightarrow> if pos \<noteq> length expr then Inl ParseError else Inr result)"

section \<open>Rendering (to_infix)\<close>






section \<open>Vocabulary of the properties\<close>

text \<open>
  The two nested conditions that guard the factoring rewrites in \<open>BinaryOpNode.simplify\<close>:
  the operator is \<open>+\<close> or \<open>-\<close> and both simplified operands are \<open>*\<close> nodes.
\<close>

definition product_pair :: "string \<Rightarrow> node \<Rightarrow> node \<Rightarrow> bool" where
  "product_pair opr l' r' =
     ((opr = ''+'' \<or> opr = ''-'') \<and> is_BinaryOpNode l' \<and> is_BinaryOpNode r'
      \<and> oper l' = ''*'' \<and> oper r' = ''*'')"


text \<open>The integer values held by the literal nodes of a tree.\<close>

fun literals :: "node \<Rightarrow> int set" where
  "literals (ValueNode (IntV n)) = {n}"
| "literals (ValueNode (StrV s)) = {}"
| "literals (UnaryMinusNode c) = literals c"
| "literals (BinaryOpNode opr l r) = literals l \<union> literals r"




section \<open>Properties of simplify and evaluate\<close>

lemma node_eq_imp_eq: "node_eq a b \<Longrightarrow> a = b"
  by (induction a b rule: node_eq.induct) (auto simp: node.expand)

lemmas simplify_bin = simplify.simps(3)
declare simplify.simps(3) [simp del]

lemma simplify_bin_right:
  assumes "simplify l = Inr l'" "simplify r = Inr r'"
    and "product_pair opr l' r' \<and> node_eq (right l') (right r')"
  shows "simplify (BinaryOpNode opr l r) =
    (case simplify (BinaryOpNode opr (left l') (left r')) of Inl e \<Rightarrow> Inl e
     | Inr inner \<Rightarrow> simplify (BinaryOpNode ''*'' inner (right l')))"
  using assms by (subst simplify_bin) (simp add: product_pair_def)

lemma simplify_bin_left:
  assumes "simplify l = Inr l'" "simplify r = Inr r'"
    and "\<not> node_eq (right l') (right r')"
    and "product_pair opr l' r' \<and> node_eq (left l') (left r')"
  shows "simplify (BinaryOpNode opr l r) =
    (case simplify (BinaryOpNode opr (right l') (right r')) of Inl e \<Rightarrow> Inl e
     | Inr inner \<Rightarrow> simplify (BinaryOpNode ''*'' (left l') inner))"
  using assms by (subst simplify_bin) (simp add: product_pair_def)

lemma simplify_bin_none:
  assumes "simplify l = Inr l'" "simplify r = Inr r'"
    and "\<not> (product_pair opr l' r' \<and> node_eq (right l') (right r'))"
    and "\<not> (product_pair opr l' r' \<and> node_eq (left l') (left r'))"
  shows "simplify (BinaryOpNode opr l r) =
    (if is_ValueNode l' \<and> is_ValueNode r' \<and> is_int (val l') \<and> is_int (val r')
     then (case evaluate (BinaryOpNode opr l' r') Map.empty of Inl e \<Rightarrow> Inl e
           | Inr v \<Rightarrow> Inr (ValueNode (IntV v)))
     else Inr (BinaryOpNode opr l' r'))"
  using assms by (subst simplify_bin) (auto simp: product_pair_def)

lemma evaluate_bin_InrE:
  assumes "evaluate (BinaryOpNode opr l r) vars = Inr v"
  obtains a b where "evaluate l vars = Inr a" "evaluate r vars = Inr b"
    "evaluate (BinaryOpNode opr (ValueNode (IntV a)) (ValueNode (IntV b))) Map.empty = Inr v"
  using assms by (auto split: sum.splits if_splits)


subsection \<open>Evaluation equivalence\<close>

text \<open>
  C2. For every tree \<open>t\<close> and every variable mapping under which \<open>evaluate t\<close> succeeds,
  \<open>simplify t\<close> returns a tree, and evaluating that tree under the same mapping succeeds
  with the same integer.
\<close>

theorem simplify_preserves_evaluate:
  "evaluate t vars = Inr v \<Longrightarrow> \<exists>t'. simplify t = Inr t' \<and> evaluate t' vars = Inr v"
proof (induction t arbitrary: v rule: simplify.induct)
  case (1 w)
  then show ?case by simp
next
  case (2 c)
  from "2.prems" obtain a where a: "evaluate c vars = Inr a" and v: "v = - a"
    by (auto split: sum.splits)
  from "2.IH"[OF a] obtain c' where c': "simplify c = Inr c'" "evaluate c' vars = Inr a"
    by blast
  show ?case
  proof (cases "is_ValueNode c' \<and> is_int (val c')")
    case True
    then obtain n where "c' = ValueNode (IntV n)"
      by (cases c'; cases "val c'") auto
    with c' v show ?thesis by auto
  next
    case False
    with c' v show ?thesis by auto
  qed
next
  case (3 opr l r)
  from "3.prems" obtain a b where a: "evaluate l vars = Inr a" and b: "evaluate r vars = Inr b"
    and ab: "evaluate (BinaryOpNode opr (ValueNode (IntV a)) (ValueNode (IntV b))) Map.empty = Inr v"
    by (rule evaluate_bin_InrE)
  from "3.IH"(1)[OF a] obtain l' where l: "simplify l = Inr l'" and el: "evaluate l' vars = Inr a"
    by blast
  from "3.IH"(2)[OF l b] obtain r' where r: "simplify r = Inr r'" and er: "evaluate r' vars = Inr b"
    by blast
  have ev: "evaluate (BinaryOpNode opr l' r') vars = Inr v"
    using el er ab by simp
  let ?addsub = "product_pair opr l' r'"
  consider (R) "?addsub \<and> node_eq (right l') (right r')"
    | (L) "\<not> node_eq (right l') (right r')" "?addsub \<and> node_eq (left l') (left r')"
    | (N) "\<not> (?addsub \<and> node_eq (right l') (right r'))" "\<not> (?addsub \<and> node_eq (left l') (left r'))"
    by blast
  then show ?case
  proof cases
    case R
    then obtain l1 l2 r1 where l': "l' = BinaryOpNode ''*'' l1 l2" and r': "r' = BinaryOpNode ''*'' r1 l2"
      by (cases l'; cases r') (auto simp: product_pair_def dest: node_eq_imp_eq)
    from el l' obtain a1 a2 where a1: "evaluate l1 vars = Inr a1" and a2: "evaluate l2 vars = Inr a2"
      and am: "a = a1 * a2"
      by (auto split: sum.splits)
    from er r' a2 obtain b1 where b1: "evaluate r1 vars = Inr b1" and bm: "b = b1 * a2"
      by (auto split: sum.splits)
    define w where "w = (if opr = ''+'' then a1 + b1 else a1 - b1)"
    have w: "evaluate (BinaryOpNode opr (ValueNode (IntV a1)) (ValueNode (IntV b1))) Map.empty = Inr w"
      using R[unfolded product_pair_def] by (auto simp: w_def)
    have vw: "v = w * a2"
      using R[unfolded product_pair_def] ab am bm by (auto simp: w_def algebra_simps)
    have "evaluate (BinaryOpNode opr (left l') (left r')) vars = Inr w"
      using w a1 b1 l' r' by simp
    from "3.IH"(3)[OF l r _ this] R[unfolded product_pair_def] obtain inner where
      i: "simplify (BinaryOpNode opr (left l') (left r')) = Inr inner"
      and ei: "evaluate inner vars = Inr w" by blast
    have "evaluate (BinaryOpNode ''*'' inner (right l')) vars = Inr v"
      using ei a2 l' vw by simp
    from "3.IH"(4)[OF l r _ i this] R[unfolded product_pair_def] obtain t' where
      "simplify (BinaryOpNode ''*'' inner (right l')) = Inr t'" "evaluate t' vars = Inr v"
      by blast
    then show ?thesis using i by (simp add: simplify_bin_right[OF l r R])
  next
    case L
    then obtain l1 l2 r2 where l': "l' = BinaryOpNode ''*'' l1 l2" and r': "r' = BinaryOpNode ''*'' l1 r2"
      by (cases l'; cases r') (auto simp: product_pair_def dest: node_eq_imp_eq)
    from el l' obtain a1 a2 where a1: "evaluate l1 vars = Inr a1" and a2: "evaluate l2 vars = Inr a2"
      and am: "a = a1 * a2"
      by (auto split: sum.splits)
    from er r' a1 obtain b2 where b2: "evaluate r2 vars = Inr b2" and bm: "b = a1 * b2"
      by (auto split: sum.splits)
    define w where "w = (if opr = ''+'' then a2 + b2 else a2 - b2)"
    have w: "evaluate (BinaryOpNode opr (ValueNode (IntV a2)) (ValueNode (IntV b2))) Map.empty = Inr w"
      using L[unfolded product_pair_def] by (auto simp: w_def)
    have vw: "v = a1 * w"
      using L[unfolded product_pair_def] ab am bm by (auto simp: w_def algebra_simps)
    have "evaluate (BinaryOpNode opr (right l') (right r')) vars = Inr w"
      using w a2 b2 l' r' by simp
    from "3.IH"(5)[OF l r _ _ this] L[unfolded product_pair_def] obtain inner where
      i: "simplify (BinaryOpNode opr (right l') (right r')) = Inr inner"
      and ei: "evaluate inner vars = Inr w" by blast
    have "evaluate (BinaryOpNode ''*'' (left l') inner) vars = Inr v"
      using ei a1 l' vw by simp
    from "3.IH"(6)[OF l r _ _ i this] L[unfolded product_pair_def] obtain t' where
      "simplify (BinaryOpNode ''*'' (left l') inner) = Inr t'" "evaluate t' vars = Inr v"
      by blast
    then show ?thesis using i by (simp add: simplify_bin_left[OF l r L])
  next
    case N
    show ?thesis
    proof (cases "is_ValueNode l' \<and> is_ValueNode r' \<and> is_int (val l') \<and> is_int (val r')")
      case True
      then obtain m n where "l' = ValueNode (IntV m)" "r' = ValueNode (IntV n)"
        by (cases l'; cases r'; cases "val l'"; cases "val r'") auto
      with el er have "l' = ValueNode (IntV a)" "r' = ValueNode (IntV b)" by auto
      then show ?thesis using ab by (simp add: simplify_bin_none[OF l r N])
    next
      case False
      have "simplify (BinaryOpNode opr l r) = Inr (BinaryOpNode opr l' r')"
        unfolding simplify_bin_none[OF l r N] by (simp only: False if_False)
      then show ?thesis using ev by simp
    qed
  qed
qed

theorem simplify_preserves_evaluate_witness:
  "evaluate (BinaryOpNode ''+''
       (BinaryOpNode ''*'' (ValueNode (StrV ''a'')) (ValueNode (StrV ''c'')))
       (BinaryOpNode ''*'' (ValueNode (StrV ''b'')) (ValueNode (IntV 4))))
     [''a'' \<mapsto> 2, ''b'' \<mapsto> 3, ''c'' \<mapsto> 4] = Inr 20
   \<and> (\<exists>t'. simplify (BinaryOpNode ''+''
       (BinaryOpNode ''*'' (ValueNode (StrV ''a'')) (ValueNode (StrV ''c'')))
       (BinaryOpNode ''*'' (ValueNode (StrV ''b'')) (ValueNode (IntV 4)))) = Inr t'
     \<and> evaluate t' [''a'' \<mapsto> 2, ''b'' \<mapsto> 3, ''c'' \<mapsto> 4] = Inr 20)"
proof -
  have h: "evaluate (BinaryOpNode ''+''
       (BinaryOpNode ''*'' (ValueNode (StrV ''a'')) (ValueNode (StrV ''c'')))
       (BinaryOpNode ''*'' (ValueNode (StrV ''b'')) (ValueNode (IntV 4))))
     [''a'' \<mapsto> 2, ''b'' \<mapsto> 3, ''c'' \<mapsto> 4] = Inr 20"
    by simp
  from simplify_preserves_evaluate[OF h] h show ?thesis by blast
qed

subsection \<open>Idempotence\<close>

lemma simplify_fixed:
  "simplify t = Inr t' \<Longrightarrow> simplify t' = Inr t'"
proof (induction t arbitrary: t' rule: simplify.induct)
  case (1 v)
  then show ?case by auto
next
  case (2 c)
  from "2.prems" obtain c' where c': "simplify c = Inr c'"
    by (auto split: sum.splits)
  from "2.IH"[OF c'] have fc: "simplify c' = Inr c'" .
  show ?case
  proof (cases "is_ValueNode c' \<and> is_int (val c')")
    case True
    with "2.prems" c' show ?thesis by auto
  next
    case False
    with "2.prems" c' have "t' = UnaryMinusNode c'" by auto
    with fc False show ?thesis by auto
  qed
next
  case (3 opr l r)
  from "3.prems" obtain l' r' where l: "simplify l = Inr l'" and r: "simplify r = Inr r'"
    by (subst (asm) simplify_bin) (auto split: sum.splits)
  from "3.IH"(1)[OF l] have fl: "simplify l' = Inr l'" .
  from "3.IH"(2)[OF l r] have fr: "simplify r' = Inr r'" .
  let ?addsub = "product_pair opr l' r'"
  consider (R) "?addsub \<and> node_eq (right l') (right r')"
    | (L) "\<not> node_eq (right l') (right r')" "?addsub \<and> node_eq (left l') (left r')"
    | (N) "\<not> (?addsub \<and> node_eq (right l') (right r'))" "\<not> (?addsub \<and> node_eq (left l') (left r'))"
    by blast
  then show ?case
  proof cases
    case R
    from "3.prems" obtain inner where
      i: "simplify (BinaryOpNode opr (left l') (left r')) = Inr inner"
      and o: "simplify (BinaryOpNode ''*'' inner (right l')) = Inr t'"
      unfolding simplify_bin_right[OF l r R] by (auto split: sum.splits)
    from "3.IH"(4)[OF l r _ i o] R[unfolded product_pair_def] show ?thesis by simp
  next
    case L
    from "3.prems" obtain inner where
      i: "simplify (BinaryOpNode opr (right l') (right r')) = Inr inner"
      and o: "simplify (BinaryOpNode ''*'' (left l') inner) = Inr t'"
      unfolding simplify_bin_left[OF l r L] by (auto split: sum.splits)
    from "3.IH"(6)[OF l r _ _ i o] L[unfolded product_pair_def] show ?thesis by simp
  next
    case N
    show ?thesis
    proof (cases "is_ValueNode l' \<and> is_ValueNode r' \<and> is_int (val l') \<and> is_int (val r')")
      case True
      with "3.prems" show ?thesis
        unfolding simplify_bin_none[OF l r N] by (auto split: sum.splits)
    next
      case False
      have "simplify (BinaryOpNode opr l r) = Inr (BinaryOpNode opr l' r')"
        unfolding simplify_bin_none[OF l r N] by (simp only: False if_False)
      with "3.prems" have t': "t' = BinaryOpNode opr l' r'" by simp
      have "simplify (BinaryOpNode opr l' r') = Inr (BinaryOpNode opr l' r')"
        unfolding simplify_bin_none[OF fl fr N] by (simp only: False if_False)
      with t' show ?thesis by simp
    qed
  qed
qed

text \<open>
  C5. \<open>simplify\<close> is idempotent: simplifying the result of \<open>simplify t\<close> returns that
  result unchanged (and when \<open>simplify t\<close> raises, so does the composition, with the same
  exception).
\<close>

theorem simplify_idempotent: "and_then (simplify t) simplify = simplify t"
  by (cases "simplify t") (auto simp: and_then_def dest: simplify_fixed)

subsection \<open>When simplify raises\<close>









subsection \<open>Factoring\<close>

text \<open>
  C4. \<open>simplify(parse("a*c+b*c"))\<close> is the tree \<open>((a + b) * c)\<close>, the same as
  \<open>simplify(parse("(a+b)*c"))\<close>; \<open>simplify(parse("a*b-a*c"))\<close> is the tree
  \<open>(a * (b - c))\<close>. When a \<open>+\<close>/\<open>-\<close> node has two simplified \<open>*\<close> children, equal right
  factors give the right-factor rewrite whether or not the left factors are equal too; the
  left-factor rewrite is applied only when the right factors differ.
\<close>

theorem factoring_rewrites:
  "and_then (parse ''a*c+b*c'') simplify =
     Inr (BinaryOpNode ''*''
           (BinaryOpNode ''+'' (ValueNode (StrV ''a'')) (ValueNode (StrV ''b'')))
           (ValueNode (StrV ''c'')))
   \<and> and_then (parse ''a*c+b*c'') simplify = and_then (parse ''(a+b)*c'') simplify
   \<and> and_then (parse ''a*b-a*c'') simplify =
     Inr (BinaryOpNode ''*'' (ValueNode (StrV ''a''))
           (BinaryOpNode ''-'' (ValueNode (StrV ''b'')) (ValueNode (StrV ''c''))))
   \<and> (\<forall>opr l r l' r'.
        simplify l = Inr l' \<and> simplify r = Inr r' \<and> product_pair opr l' r' \<longrightarrow>
          (node_eq (right l') (right r') \<longrightarrow>
             simplify (BinaryOpNode opr l r) =
               and_then (simplify (BinaryOpNode opr (left l') (left r')))
                 (\<lambda>inner. simplify (BinaryOpNode ''*'' inner (right l'))))
        \<and> (\<not> node_eq (right l') (right r') \<and> node_eq (left l') (left r') \<longrightarrow>
             simplify (BinaryOpNode opr l r) =
               and_then (simplify (BinaryOpNode opr (right l') (right r')))
                 (\<lambda>inner. simplify (BinaryOpNode ''*'' (left l') inner))))"
proof (intro conjI allI impI)
  have p1: "parse ''a*c+b*c'' = Inr (BinaryOpNode ''+''
        (BinaryOpNode ''*'' (ValueNode (StrV ''a'')) (ValueNode (StrV ''c'')))
        (BinaryOpNode ''*'' (ValueNode (StrV ''b'')) (ValueNode (StrV ''c''))))"
    by code_simp
  have p2: "parse ''(a+b)*c'' = Inr (BinaryOpNode ''*''
        (BinaryOpNode ''+'' (ValueNode (StrV ''a'')) (ValueNode (StrV ''b'')))
        (ValueNode (StrV ''c'')))"
    by code_simp
  show r1: "and_then (parse ''a*c+b*c'') simplify =
     Inr (BinaryOpNode ''*''
           (BinaryOpNode ''+'' (ValueNode (StrV ''a'')) (ValueNode (StrV ''b'')))
           (ValueNode (StrV ''c'')))"
    unfolding p1 by (simp add: and_then_def simplify_bin)
  have "and_then (parse ''(a+b)*c'') simplify =
     Inr (BinaryOpNode ''*''
           (BinaryOpNode ''+'' (ValueNode (StrV ''a'')) (ValueNode (StrV ''b'')))
           (ValueNode (StrV ''c'')))"
    unfolding p2 by (simp add: and_then_def simplify_bin)
  with r1 show "and_then (parse ''a*c+b*c'') simplify = and_then (parse ''(a+b)*c'') simplify"
    by simp
next
  have p3: "parse ''a*b-a*c'' = Inr (BinaryOpNode ''-''
        (BinaryOpNode ''*'' (ValueNode (StrV ''a'')) (ValueNode (StrV ''b'')))
        (BinaryOpNode ''*'' (ValueNode (StrV ''a'')) (ValueNode (StrV ''c''))))"
    by code_simp
  show "and_then (parse ''a*b-a*c'') simplify =
     Inr (BinaryOpNode ''*'' (ValueNode (StrV ''a''))
           (BinaryOpNode ''-'' (ValueNode (StrV ''b'')) (ValueNode (StrV ''c''))))"
    unfolding p3 by (simp add: and_then_def simplify_bin)
next
  fix opr l r l' r'
  assume a: "simplify l = Inr l' \<and> simplify r = Inr r' \<and> product_pair opr l' r'"
    and e: "node_eq (right l') (right r')"
  from a e show "simplify (BinaryOpNode opr l r) =
               and_then (simplify (BinaryOpNode opr (left l') (left r')))
                 (\<lambda>inner. simplify (BinaryOpNode ''*'' inner (right l')))"
    by (simp add: simplify_bin_right and_then_def)
next
  fix opr l r l' r'
  assume a: "simplify l = Inr l' \<and> simplify r = Inr r' \<and> product_pair opr l' r'"
    and e: "\<not> node_eq (right l') (right r') \<and> node_eq (left l') (left r')"
  from a e show "simplify (BinaryOpNode opr l r) =
               and_then (simplify (BinaryOpNode opr (right l') (right r')))
                 (\<lambda>inner. simplify (BinaryOpNode ''*'' (left l') inner))"
    by (simp add: simplify_bin_left and_then_def)
qed

theorem factoring_rewrites_witness:
  "simplify (BinaryOpNode ''*'' (ValueNode (StrV ''x'')) (ValueNode (StrV ''y'')))
     = Inr (BinaryOpNode ''*'' (ValueNode (StrV ''x'')) (ValueNode (StrV ''y'')))
   \<and> product_pair ''+'' (BinaryOpNode ''*'' (ValueNode (StrV ''x'')) (ValueNode (StrV ''y'')))
        (BinaryOpNode ''*'' (ValueNode (StrV ''x'')) (ValueNode (StrV ''y'')))
   \<and> node_eq (ValueNode (StrV ''y'')) (ValueNode (StrV ''y''))
   \<and> node_eq (ValueNode (StrV ''x'')) (ValueNode (StrV ''x''))
   \<and> simplify (BinaryOpNode ''+''
        (BinaryOpNode ''*'' (ValueNode (StrV ''x'')) (ValueNode (StrV ''y'')))
        (BinaryOpNode ''*'' (ValueNode (StrV ''x'')) (ValueNode (StrV ''y''))))
     = Inr (BinaryOpNode ''*''
        (BinaryOpNode ''+'' (ValueNode (StrV ''x'')) (ValueNode (StrV ''x'')))
        (ValueNode (StrV ''y'')))"
proof -
  let ?xy = "BinaryOpNode ''*'' (ValueNode (StrV ''x'')) (ValueNode (StrV ''y''))"
  have s: "simplify ?xy = Inr ?xy" by (simp add: simplify_bin)
  have p: "product_pair ''+'' ?xy ?xy" by (simp add: product_pair_def)
  have n: "node_eq (right ?xy) (right ?xy)" by simp
  from factoring_rewrites s p n
  have "simplify (BinaryOpNode ''+'' ?xy ?xy) =
      and_then (simplify (BinaryOpNode ''+'' (left ?xy) (left ?xy)))
        (\<lambda>inner. simplify (BinaryOpNode ''*'' inner (right ?xy)))"
    by blast
  also have "\<dots> = Inr (BinaryOpNode ''*''
        (BinaryOpNode ''+'' (ValueNode (StrV ''x'')) (ValueNode (StrV ''x'')))
        (ValueNode (StrV ''y'')))"
    by (simp add: and_then_def simplify_bin)
  finally show ?thesis using s p by simp
qed

subsection \<open>Division\<close>

text \<open>
  C7. A \<open>/\<close> node whose operands evaluate, the right one to zero, raises
  \<open>ZeroDivisionError\<close> at evaluation time (so does \<open>evaluate(parse("a/b"), {a: 5, b: 0})\<close>);
  and \<open>simplify\<close> raises it at once when both simplified operands of a \<open>/\<close> node are
  integer literals and the divisor is zero.
\<close>

theorem division_by_zero_raises:
  "(\<forall>l r vars a. evaluate l vars = Inr a \<and> evaluate r vars = Inr 0 \<longrightarrow>
        evaluate (BinaryOpNode ''/'' l r) vars = Inl ZeroDivisionError)
   \<and> and_then (parse ''a/b'') (\<lambda>t. evaluate t [''a'' \<mapsto> 5, ''b'' \<mapsto> 0]) = Inl ZeroDivisionError
   \<and> (\<forall>l r a. simplify l = Inr (ValueNode (IntV a)) \<and> simplify r = Inr (ValueNode (IntV 0)) \<longrightarrow>
        simplify (BinaryOpNode ''/'' l r) = Inl ZeroDivisionError)"
proof (intro conjI allI impI)
  fix l r vars a
  assume "evaluate l vars = Inr a \<and> evaluate r vars = Inr 0"
  then show "evaluate (BinaryOpNode ''/'' l r) vars = Inl ZeroDivisionError" by simp
next
  have "parse ''a/b'' = Inr (BinaryOpNode ''/'' (ValueNode (StrV ''a'')) (ValueNode (StrV ''b'')))"
    by code_simp
  then show "and_then (parse ''a/b'') (\<lambda>t. evaluate t [''a'' \<mapsto> 5, ''b'' \<mapsto> 0]) = Inl ZeroDivisionError"
    by (simp add: and_then_def)
next
  fix l r a
  assume "simplify l = Inr (ValueNode (IntV a)) \<and> simplify r = Inr (ValueNode (IntV 0))"
  then show "simplify (BinaryOpNode ''/'' l r) = Inl ZeroDivisionError"
    by (subst simplify_bin) simp
qed

theorem division_by_zero_raises_witness:
  "evaluate (ValueNode (StrV ''a'')) [''a'' \<mapsto> 5, ''b'' \<mapsto> 0] = Inr 5
   \<and> evaluate (ValueNode (StrV ''b'')) [''a'' \<mapsto> 5, ''b'' \<mapsto> 0] = Inr 0
   \<and> evaluate (BinaryOpNode ''/'' (ValueNode (StrV ''a'')) (ValueNode (StrV ''b'')))
        [''a'' \<mapsto> 5, ''b'' \<mapsto> 0] = Inl ZeroDivisionError
   \<and> simplify (BinaryOpNode ''+'' (ValueNode (IntV 3)) (ValueNode (IntV 4))) = Inr (ValueNode (IntV 7))
   \<and> simplify (UnaryMinusNode (UnaryMinusNode (ValueNode (IntV 0)))) = Inr (ValueNode (IntV 0))
   \<and> simplify (BinaryOpNode ''/'' (BinaryOpNode ''+'' (ValueNode (IntV 3)) (ValueNode (IntV 4)))
        (UnaryMinusNode (UnaryMinusNode (ValueNode (IntV 0))))) = Inl ZeroDivisionError"
proof -
  have e: "evaluate (ValueNode (StrV ''a'')) [''a'' \<mapsto> 5, ''b'' \<mapsto> 0] = Inr 5
      \<and> evaluate (ValueNode (StrV ''b'')) [''a'' \<mapsto> 5, ''b'' \<mapsto> 0] = Inr 0"
    by simp
  have s: "simplify (BinaryOpNode ''+'' (ValueNode (IntV 3)) (ValueNode (IntV 4))) = Inr (ValueNode (IntV 7))
      \<and> simplify (UnaryMinusNode (UnaryMinusNode (ValueNode (IntV 0)))) = Inr (ValueNode (IntV 0))"
    by (simp add: simplify_bin)
  from division_by_zero_raises e s show ?thesis by blast
qed

text \<open>
  C8. Division rounds toward negative infinity: \<open>5/2\<close> evaluates to 2, \<open>-5/2\<close> (parsed as
  unary minus applied to 5, divided by 2) evaluates to -3, and a \<open>/\<close> node with a nonzero
  right operand value returns the floor of the exact quotient of the operand values.
\<close>

theorem division_is_floor:
  "and_then (parse ''5/2'') (\<lambda>t. evaluate t Map.empty) = Inr 2
   \<and> and_then (parse ''-5/2'') (\<lambda>t. evaluate t Map.empty) = Inr (- 3)
   \<and> (\<forall>l r vars a b. evaluate l vars = Inr a \<and> evaluate r vars = Inr b \<and> b \<noteq> 0 \<longrightarrow>
        evaluate (BinaryOpNode ''/'' l r) vars = Inr \<lfloor>real_of_int a / real_of_int b\<rfloor>)"
proof (intro conjI allI impI)
  have "parse ''5/2'' = Inr (BinaryOpNode ''/'' (ValueNode (IntV 5)) (ValueNode (IntV 2)))"
    by code_simp
  then show "and_then (parse ''5/2'') (\<lambda>t. evaluate t Map.empty) = Inr 2"
    by (simp add: and_then_def)
next
  have "parse ''-5/2'' = Inr (BinaryOpNode ''/'' (UnaryMinusNode (ValueNode (IntV 5))) (ValueNode (IntV 2)))"
    by code_simp
  then show "and_then (parse ''-5/2'') (\<lambda>t. evaluate t Map.empty) = Inr (- 3)"
    by (simp add: and_then_def)
next
  fix l r vars a b
  assume "evaluate l vars = Inr a \<and> evaluate r vars = Inr b \<and> b \<noteq> 0"
  then show "evaluate (BinaryOpNode ''/'' l r) vars = Inr \<lfloor>real_of_int a / real_of_int b\<rfloor>"
    by (simp add: floor_divide_of_int_eq)
qed

theorem division_is_floor_witness:
  "evaluate (UnaryMinusNode (ValueNode (IntV 7))) Map.empty = Inr (- 7)
   \<and> evaluate (ValueNode (IntV 2)) Map.empty = Inr 2 \<and> (2::int) \<noteq> 0
   \<and> evaluate (BinaryOpNode ''/'' (UnaryMinusNode (ValueNode (IntV 7))) (ValueNode (IntV 2))) Map.empty
       = Inr \<lfloor>real_of_int (- 7) / real_of_int 2\<rfloor>
   \<and> \<lfloor>real_of_int (- 7) / real_of_int 2\<rfloor> = - 4"
proof -
  have e: "evaluate (UnaryMinusNode (ValueNode (IntV 7))) Map.empty = Inr (- 7)
   \<and> evaluate (ValueNode (IntV 2)) Map.empty = Inr 2 \<and> (2::int) \<noteq> 0" by simp
  have f: "\<lfloor>real_of_int (- 7) / real_of_int 2\<rfloor> = - 4"
    by (simp add: floor_divide_of_int_eq)
  from division_is_floor e f show ?thesis by blast
qed

section \<open>Properties of the parser\<close>

text \<open>
  C9. \<open>parse\<close> of the empty string raises \<open>ParseError\<close>: \<open>_parse_primary\<close> sees the empty
  string as the current character, which is neither a parenthesis, a digit nor a letter.
\<close>

theorem parse_empty_raises: "parse '''' = Inl ParseError"
  by code_simp

subsection \<open>Literals produced by the parser\<close>

lemma digit_value_nonneg: "c \<in> set ''0123456789'' \<Longrightarrow> 0 \<le> digit_value c"
  by (auto simp: digit_value_def)

lemma foldl_digits_nonneg:
  "list_all (\<lambda>c. c \<in> set ''0123456789'') s \<Longrightarrow> 0 \<le> acc \<Longrightarrow>
   0 \<le> foldl (\<lambda>acc c. 10 * acc + digit_value c) acc s"
proof (induction s arbitrary: acc)
  case Nil
  then show ?case by simp
next
  case (Cons c s)
  from Cons.prems have "0 \<le> digit_value c" by (intro digit_value_nonneg) simp
  with Cons.prems have "0 \<le> 10 * acc + digit_value c" by simp
  with Cons.IH[of "10 * acc + digit_value c"] Cons.prems show ?case by simp
qed

lemma py_int_nonneg: "py_int s = Inr n \<Longrightarrow> 0 \<le> n"
  using foldl_digits_nonneg[of s 0]
  by (auto simp: py_int_def isdigit_def split: if_splits)

lemma parse_number_literals:
  "parse_number expr pos = Inr (t, p) \<Longrightarrow> n \<in> literals t \<Longrightarrow> 0 \<le> n"
  by (auto simp: parse_number_def Let_def split: sum.splits dest: py_int_nonneg)

lemma parse_literals_nonneg:
  "parse_expression expr m pos = Inr (t, p) \<Longrightarrow> \<forall>n \<in> literals t. 0 \<le> n"
  "parse_expression_loop expr m node pos = Inr (t, p) \<Longrightarrow> \<forall>n \<in> literals node. 0 \<le> n
     \<Longrightarrow> \<forall>n \<in> literals t. 0 \<le> n"
  "parse_unary expr pos = Inr (t, p) \<Longrightarrow> \<forall>n \<in> literals t. 0 \<le> n"
  "parse_primary expr pos = Inr (t, p) \<Longrightarrow> \<forall>n \<in> literals t. 0 \<le> n"
proof (induction expr m pos and expr m node pos and expr pos and expr pos
    arbitrary: t p and t p and t p and t p
    rule: parse_expression_parse_expression_loop_parse_unary_parse_primary.induct)
  case (1 expr min_priority pos)
  from "1.prems" obtain n1 p1 where
    u: "parse_unary expr pos = Inr (n1, p1)"
    and l: "parse_expression_loop expr min_priority n1 p1 = Inr (t, p)"
    by (subst (asm) parse_expression.simps) (auto split: sum.splits prod.splits)
  from "1.IH"(1)[OF u] have "\<forall>n \<in> literals n1. 0 \<le> n" .
  with "1.IH"(2)[OF u refl l] show ?case .
next
  case (2 expr min_priority node pos)
  show ?case
  proof (cases "map_of OPERATORS_PRIORITY (current expr pos) \<noteq> None
         \<and> priority (current expr pos) \<ge> min_priority")
    case True
    with "2.prems"(1) obtain r p2 where
      e: "parse_expression expr (priority (current expr pos) + 1) (pos + 1) = Inr (r, p2)"
      and l: "parse_expression_loop expr min_priority (BinaryOpNode (current expr pos) node r) p2 = Inr (t, p)"
      by (subst (asm) parse_expression_loop.simps) (auto split: sum.splits prod.splits)
    from "2.IH"(1)[OF True e] have "\<forall>n \<in> literals r. 0 \<le> n" .
    with "2.prems"(2) have "\<forall>n \<in> literals (BinaryOpNode (current expr pos) node r). 0 \<le> n"
      by auto
    with "2.IH"(2)[OF True e refl l] show ?thesis .
  next
    case False
    with "2.prems" show ?thesis
      by (subst (asm) parse_expression_loop.simps) auto
  qed
next
  case (3 expr pos)
  show ?case
  proof (cases "current expr pos = ''-''")
    case True
    with "3.prems" obtain c where c: "parse_unary expr (pos + 1) = Inr (c, p)" and t: "t = UnaryMinusNode c"
      by (subst (asm) parse_unary.simps) (auto split: sum.splits prod.splits)
    from "3.IH"(1)[OF True c] t show ?thesis by simp
  next
    case False
    with "3.prems" have "parse_primary expr pos = Inr (t, p)"
      by (subst (asm) parse_unary.simps) auto
    from "3.IH"(2)[OF False this] show ?thesis .
  qed
next
  case (4 expr pos)
  show ?case
  proof (cases "current expr pos = ''(''")
    case True
    with "4.prems" obtain p1 where "parse_expression expr 0 (pos + 1) = Inr (t, p1)"
      by (subst (asm) parse_primary.simps) (auto split: sum.splits prod.splits if_splits)
    with "4.IH"[OF True] show ?thesis by blast
  next
    case False
    with "4.prems" show ?thesis
      by (subst (asm) parse_primary.simps) (auto dest: parse_number_literals split: if_splits)
  qed
qed

text \<open>
  C10. Every literal node of a tree returned by \<open>parse\<close> holds a non-negative integer:
  \<open>_parse_number\<close> converts a slice of digits, and a minus sign becomes a
  \<open>UnaryMinusNode\<close> in \<open>_parse_unary\<close>.
\<close>

theorem parse_literals_nonnegative:
  "parse s = Inr t \<Longrightarrow> n \<in> literals t \<Longrightarrow> 0 \<le> n"
  using parse_literals_nonneg(1)
  by (fastforce simp: parse_def Let_def split: sum.splits prod.splits if_splits)

theorem parse_literals_nonnegative_witness:
  "parse ''-12*3'' = Inr (BinaryOpNode ''*'' (UnaryMinusNode (ValueNode (IntV 12))) (ValueNode (IntV 3)))
   \<and> 12 \<in> literals (BinaryOpNode ''*'' (UnaryMinusNode (ValueNode (IntV 12))) (ValueNode (IntV 3)))
   \<and> (0::int) \<le> 12"
proof -
  have p: "parse ''-12*3'' = Inr (BinaryOpNode ''*'' (UnaryMinusNode (ValueNode (IntV 12))) (ValueNode (IntV 3)))"
    by code_simp
  have m: "12 \<in> literals (BinaryOpNode ''*'' (UnaryMinusNode (ValueNode (IntV 12))) (ValueNode (IntV 3)))"
    by simp
  from parse_literals_nonnegative[OF p m] p m show ?thesis by blast
qed

subsection \<open>Decimal rendering and reading\<close>





subsection \<open>Steps of the parser\<close>

lemma drop_after: "drop pos expr = xs @ ys \<Longrightarrow> drop (pos + length xs) expr = ys"
  by (metis add.commute append_eq_conv_conj drop_drop)

lemma current_of_drop:
  "current expr pos = (case ys of [] \<Rightarrow> [] | c # _ \<Rightarrow> [c])" if "drop pos expr = ys"
proof (cases ys)
  case Nil
  with that show ?thesis by (simp add: current_def)
next
  case (Cons c cs)
  with that have lt: "pos < length expr"
    by (metis drop_all list.distinct(1) not_le)
  then have "expr ! pos = hd (drop pos expr)" by (simp add: hd_drop_conv_nth)
  with that Cons lt show ?thesis by (simp add: current_def)
qed

lemma current_after:
  "drop pos expr = xs @ ys \<Longrightarrow>
   current expr (pos + length xs) = (case ys of [] \<Rightarrow> [] | c # _ \<Rightarrow> [c])"
  by (rule current_of_drop) (rule drop_after)









lemma not_operator_simps [simp]:
  "map_of OPERATORS_PRIORITY '')'' = None" "map_of OPERATORS_PRIORITY [] = None"
  by (simp_all add: OPERATORS_PRIORITY_def)


lemma remove_spaces_append [simp]:
  "remove_spaces (xs @ ys) = remove_spaces xs @ remove_spaces ys"
  by (simp add: remove_spaces_def)


subsection \<open>Rendering and parsing again\<close>













subsection \<open>Nesting depth\<close>
















end
